theory Spec2Isabelle
  imports Main "HOL-Library.Sublist"
begin

section \<open>The scheduler script: data model\<close>

text \<open>
  The script \<^verbatim>\<open>scheduler.py\<close> is embedded function by function. Python exceptions
  and \<^verbatim>\<open>sys.exit\<close> are values of the type \<open>error\<close>; a function that can raise returns
  \<open>error + 'a\<close> with \<open>Inl\<close> for the exception. Python integers are \<open>int\<close>.
\<close>

datatype error =
    AssertionError
  | NotImplementedError
  | IndexError
  | KeyError
  | ValueError
  | UnboundLocalError
  | FileNotFoundError
  | SystemExit int

text \<open>
  The two named tuples of the script. \<^verbatim>\<open>Article\<close> has the fields title, url,
  engagement and published; \<^verbatim>\<open>CArticle\<close> has title and url only. Both are read
  through \<^verbatim>\<open>.title\<close> and \<^verbatim>\<open>.url\<close> by the code that follows the fetchers.
\<close>

datatype article =
    Article (title: string) (url: string) (engagement: int) (published: int)
  | CArticle (title: string) (url: string)

section \<open>check_posted\<close>

text \<open>
  The loop of \<^verbatim>\<open>check_posted\<close> with its two local variables \<^verbatim>\<open>articles\<close> and
  \<^verbatim>\<open>added\<close>. The test \<^verbatim>\<open>added == count\<close> comes first and leaves the loop, a posted
  URL is skipped, anything else is appended. \<^verbatim>\<open>count\<close> is a Python integer read from
  the configuration, so it is an \<open>int\<close> here; as a number of articles it is \<open>int n\<close>
  for a natural number \<open>n\<close>.
\<close>

fun check_posted_loop ::
  "article list \<Rightarrow> int \<Rightarrow> string list \<Rightarrow> article list \<Rightarrow> int \<Rightarrow> article list" where
  "check_posted_loop [] count posted articles added = articles"
| "check_posted_loop (i # source) count posted articles added =
     (if added = count then articles
      else if url i \<in> set posted then check_posted_loop source count posted articles added
      else check_posted_loop source count posted (articles @ [i]) (added + 1))"

definition check_posted :: "article list \<Rightarrow> int \<Rightarrow> string list \<Rightarrow> article list" where
  "check_posted source count posted = check_posted_loop source count posted [] 0"

section \<open>Strings and files\<close>

text \<open>
  \<^verbatim>\<open>s.split(c)\<close> for a separator of one character: every occurrence of the
  separator ends a field, so the result has one field more than there are separators
  and is never empty.
\<close>

fun split_on :: "char \<Rightarrow> string \<Rightarrow> string list" where
  "split_on c [] = [[]]"
| "split_on c (x # xs) =
     (if x = c then [] # split_on c xs
      else (case split_on c xs of [] \<Rightarrow> [[x]] | s # ss \<Rightarrow> (x # s) # ss))"

text \<open>
  Reading \<^verbatim>\<open>xs[n]\<close> for a non-negative index: out of range is \<^verbatim>\<open>IndexError\<close>.
\<close>

definition item_at :: "'a list \<Rightarrow> nat \<Rightarrow> error + 'a" where
  "item_at xs n = (if n < length xs then Inr (xs ! n) else Inl IndexError)"

text \<open>
  \<^verbatim>\<open>s.strip()\<close> removes leading and trailing white space. Characters are taken by
  their code below 256; the white space of \<^verbatim>\<open>str.isspace\<close> in that range is
  9 to 13, 28 to 32, 133 and 160.
\<close>

definition is_space :: "char \<Rightarrow> bool" where
  "is_space c \<longleftrightarrow>
     c \<in> set [CHR 0x09, CHR 0x0A, CHR 0x0B, CHR 0x0C, CHR 0x0D, CHR 0x1C, CHR 0x1D,
              CHR 0x1E, CHR 0x1F, CHR 0x20, CHR 0x85, CHR 0xA0]"

definition strip :: "string \<Rightarrow> string" where
  "strip s = rev (dropWhile is_space (rev (dropWhile is_space s)))"

text \<open>
  The two state files are opened in text mode. Reading translates \<^verbatim>\<open>\r\n\<close> and a
  lone \<^verbatim>\<open>\r\<close> to \<^verbatim>\<open>\n\<close> (universal newlines); \<^verbatim>\<open>readlines\<close> then cuts after every
  \<^verbatim>\<open>\n\<close> and keeps the terminator in the line. Writing leaves \<^verbatim>\<open>\n\<close> as it is
  (the script runs on a POSIX system, as its first line says).
\<close>

fun universal_newlines :: "string \<Rightarrow> string" where
  "universal_newlines [] = []"
| "universal_newlines [c] = [if c = CHR 0x0D then CHR 0x0A else c]"
| "universal_newlines (c # d # cs) =
     (if c = CHR 0x0D \<and> d = CHR 0x0A then CHR 0x0A # universal_newlines cs
      else if c = CHR 0x0D then CHR 0x0A # universal_newlines (d # cs)
      else c # universal_newlines (d # cs))"

fun lines_from :: "string \<Rightarrow> string \<Rightarrow> string list" where
  "lines_from cur [] = (if cur = [] then [] else [cur])"
| "lines_from cur (c # cs) =
     (if c = CHR 0x0A then (cur @ [c]) # lines_from [] cs else lines_from (cur @ [c]) cs)"

definition readlines :: "string \<Rightarrow> string list" where
  "readlines content = lines_from [] (universal_newlines content)"

text \<open>
  \<^verbatim>\<open>str(n)\<close> for an integer: the decimal digits, with a leading minus sign for a
  negative number.
\<close>

definition digit_char :: "nat \<Rightarrow> char" where
  "digit_char d = char_of (48 + d)"

function str_nat :: "nat \<Rightarrow> string" where
  "str_nat n = (if n < 10 then [digit_char n] else str_nat (n div 10) @ [digit_char (n mod 10)])"
  by pat_completeness auto
termination
  by (relation "measure id") auto

definition str_int :: "int \<Rightarrow> string" where
  "str_int i = (if i < 0 then CHR ''-'' # str_nat (nat (- i)) else str_nat (nat i))"

section \<open>The outside world\<close>

text \<open>
  What a run reads from outside is collected in an environment: the command line, the
  configuration file, the clock readings, the replies of the three services and the
  random source. What a run changes is the \<open>world\<close>: the two state files, the list of
  network requests issued so far, and the position in the random source.

  Date and time values are microseconds since the epoch. The formatted string of
  \<^verbatim>\<open>main\<close> (\<^verbatim>\<open>strftime("%Y-%m-%d %H:%M:%S")\<close>) is an input of its own, since the
  calendar arithmetic that produces it is the library's.

  An item of the feed has the keys \<^verbatim>\<open>title\<close> and \<^verbatim>\<open>originId\<close>; \<^verbatim>\<open>engagement\<close>
  and \<^verbatim>\<open>published\<close> may be missing. The reply of the analytics service is a list
  of result sets, each a list of date buckets, each a list of items. A reply of the
  scheduling service has the flag \<^verbatim>\<open>success\<close> and may have a \<^verbatim>\<open>message\<close>; the reply
  to a request is chosen by the number of requests issued before it.
\<close>

record feed_item =
  fi_title :: string
  fi_originId :: string
  fi_engagement :: "int option"
  fi_published :: "int option"

record clicky_item =
  ci_title :: string
  ci_url :: string

record buffer_response =
  success :: bool
  message :: "string option"

record config =
  posting_hours :: "int list"
  articles :: "(string \<times> int) list"
  buffer_profiles :: "(string \<times> string) list"

record env =
  argv :: "string list"
  conf :: config
  utc_today :: string
  feed_now :: int
  slots_now :: int
  feed_items :: "feed_item list"
  clicky_response :: "clicky_item list list list"
  buffer_reply :: "nat \<Rightarrow> buffer_response"
  rnd :: "nat \<Rightarrow> nat"

datatype profile_arg = PStr string | PList "string list" | POther

datatype scheduled_arg = SInt int | SStr string | SOther bool

datatype posting = Now | At scheduled_arg

datatype request =
    FeedGet
  | ClickyGet
  | ProfilesGet
  | UpdatePost string string posting

record world =
  done_today_txt :: "string option"
  posted_txt :: "string option"
  requests :: "request list"
  rng :: nat

text \<open>
  \<^verbatim>\<open>make_request\<close> performs one network call. The call is appended to the log of
  the world; the reply is the environment's.
\<close>

definition make_request :: "request \<Rightarrow> world \<Rightarrow> world" where
  "make_request r w = w\<lparr>requests := requests w @ [r]\<rparr>"

text \<open>
  \<^verbatim>\<open>randint(lo, hi)\<close> draws from the random source at the current position; any
  value of the range can come out.
\<close>

definition randint :: "(nat \<Rightarrow> nat) \<Rightarrow> nat \<Rightarrow> int \<Rightarrow> int \<Rightarrow> int" where
  "randint r k lo hi = lo + int (r k mod nat (hi - lo + 1))"

text \<open>
  \<^verbatim>\<open>random.shuffle\<close>, as CPython implements it: for \<open>i\<close> from the last index down
  to 1, swap position \<open>i\<close> with a random position \<open>j \<le> i\<close>.
\<close>

fun shuffle_loop :: "(nat \<Rightarrow> nat) \<Rightarrow> nat \<Rightarrow> 'a list \<Rightarrow> nat \<Rightarrow> 'a list \<times> nat" where
  "shuffle_loop r 0 x k = (x, k)"
| "shuffle_loop r (Suc i) x k =
     (let j = r k mod (Suc i + 1)
      in shuffle_loop r i (x[Suc i := x ! j, j := x ! Suc i]) (k + 1))"

definition shuffle :: "(nat \<Rightarrow> nat) \<Rightarrow> 'a list \<Rightarrow> nat \<Rightarrow> 'a list \<times> nat" where
  "shuffle r x k = shuffle_loop r (length x - 1) x k"

section \<open>get_feed\<close>

text \<open>
  \<^verbatim>\<open>delta.days\<close> of \<^verbatim>\<open>now - datetime.utcfromtimestamp(published / 1000)\<close>: the
  difference in microseconds, divided by the microseconds of a day and rounded down
  (a \<^verbatim>\<open>timedelta\<close> keeps its seconds non-negative, so \<^verbatim>\<open>days\<close> is the floor).
  \<^verbatim>\<open>published\<close> is in milliseconds; the division by 1000 is a floating-point
  division whose result \<^verbatim>\<open>utcfromtimestamp\<close> rounds to the microsecond, which for
  timestamps of the range of \<^verbatim>\<open>datetime\<close> is the exact value.
\<close>

definition delta_days :: "int \<Rightarrow> int \<Rightarrow> int" where
  "delta_days now pub = (now - pub * 1000) div 86400000000"

text \<open>
  The loop over the items of the response. \<^verbatim>\<open>not published\<close> holds for a missing
  timestamp and for the timestamp 0.
\<close>

fun get_feed_loop :: "int \<Rightarrow> int \<Rightarrow> feed_item list \<Rightarrow> article list \<Rightarrow> article list" where
  "get_feed_loop now time_delta [] acc = acc"
| "get_feed_loop now time_delta (i # data) acc =
     (case fi_published i of
        None \<Rightarrow> get_feed_loop now time_delta data acc
      | Some p \<Rightarrow>
          if p = 0 then get_feed_loop now time_delta data acc
          else if delta_days now p = time_delta then acc
          else get_feed_loop now time_delta data
                 (acc @ [Article (fi_title i) (fi_originId i)
                           (case fi_engagement i of None \<Rightarrow> 0 | Some e \<Rightarrow> e) p]))"

text \<open>
  \<^verbatim>\<open>get_feed\<close>: one request; an empty or missing item list ends the process with
  exit code 1; otherwise the kept articles, sorted by engagement, largest first.
  Python's sort is stable, also with \<^verbatim>\<open>reverse=True\<close>.
\<close>

definition get_feed :: "env \<Rightarrow> int \<Rightarrow> world \<Rightarrow> (error + article list) \<times> world" where
  "get_feed e time_delta w =
     (let w' = make_request FeedGet w
      in if feed_items e = [] then (Inl (SystemExit 1), w')
         else (Inr (sort_key (\<lambda>f. - engagement f)
                      (get_feed_loop (feed_now e) time_delta (feed_items e) [])), w'))"

section \<open>get_clicky\<close>

fun get_clicky_loop :: "clicky_item list \<Rightarrow> article list \<Rightarrow> error + article list" where
  "get_clicky_loop [] acc = Inr acc"
| "get_clicky_loop (i # items) acc =
     (case item_at (split_on CHR ''/'' (ci_url i)) 3 of
        Inl err \<Rightarrow> Inl err
      | Inr seg \<Rightarrow>
          if seg = ''news'' \<and> length (split_on CHR ''/'' (ci_url i)) > 4
          then get_clicky_loop items (acc @ [CArticle (ci_title i) (ci_url i)])
          else get_clicky_loop items acc)"

text \<open>
  \<^verbatim>\<open>get_clicky\<close>: one request, then the items of
  \<^verbatim>\<open>response[0]['dates'][0]['items']\<close>.
\<close>

definition get_clicky :: "env \<Rightarrow> world \<Rightarrow> (error + article list) \<times> world" where
  "get_clicky e w =
     (let w' = make_request ClickyGet w
      in (case item_at (clicky_response e) 0 of
            Inl err \<Rightarrow> (Inl err, w')
          | Inr r0 \<Rightarrow>
              (case item_at r0 0 of
                 Inl err \<Rightarrow> (Inl err, w')
               | Inr items \<Rightarrow> (get_clicky_loop items [], w'))))"

section \<open>schedule_buffer\<close>

text \<open>
  The truth value Python gives the argument \<^verbatim>\<open>scheduled\<close>: an integer is true when
  it is not 0, a string when it is not empty; any other value carries its own.
\<close>

fun truthy :: "scheduled_arg \<Rightarrow> bool" where
  "truthy (SInt n) = (n \<noteq> 0)"
| "truthy (SStr s) = (s \<noteq> [])"
| "truthy (SOther b) = b"

text \<open>
  The first part of \<^verbatim>\<open>schedule_buffer\<close> binds \<^verbatim>\<open>profile_id\<close>: a string must be one
  of the two known names and a key of the configured profiles; a list is not
  implemented; any other value leaves \<^verbatim>\<open>profile_id\<close> unbound, which the payload then
  reads.
\<close>

fun resolve_profile :: "config \<Rightarrow> profile_arg \<Rightarrow> error + string" where
  "resolve_profile c (PStr p) =
     (if p \<notin> set [''twitter'', ''linkedin''] then Inl AssertionError
      else (case map_of (buffer_profiles c) p of None \<Rightarrow> Inl KeyError | Some pid \<Rightarrow> Inr pid))"
| "resolve_profile c (PList ps) = Inl NotImplementedError"
| "resolve_profile c POther = Inl UnboundLocalError"

text \<open>The second part decides between posting now and posting at a time.\<close>

fun scheduled_payload :: "scheduled_arg \<Rightarrow> error + posting" where
  "scheduled_payload scheduled =
     (if \<not> truthy scheduled then Inr Now
      else (case scheduled of
              SStr s \<Rightarrow> Inl NotImplementedError
            | SInt n \<Rightarrow>
                if length (str_int n) = 10 then Inr (At scheduled) else Inl AssertionError
            | SOther b \<Rightarrow> Inr (At scheduled)))"

definition schedule_buffer ::
  "env \<Rightarrow> string \<Rightarrow> profile_arg \<Rightarrow> scheduled_arg \<Rightarrow> world \<Rightarrow> (error + buffer_response) \<times> world" where
  "schedule_buffer e status_text profile scheduled w =
     (case resolve_profile (conf e) profile of
        Inl err \<Rightarrow> (Inl err, w)
      | Inr profile_id \<Rightarrow>
          (case scheduled_payload scheduled of
             Inl err \<Rightarrow> (Inl err, w)
           | Inr p \<Rightarrow>
               (Inr (buffer_reply e (length (requests w))),
                make_request (UpdatePost profile_id status_text p) w)))"

section \<open>get_posting_times\<close>

text \<open>
  \<^verbatim>\<open>datetime(y, m, d, hour, minute, second)\<close> followed by \<^verbatim>\<open>calendar.timegm\<close>:
  the constructor raises \<^verbatim>\<open>ValueError\<close> for an hour outside 0 to 23; the timestamp
  is the start of the day of \<open>today\<close> in seconds plus the time of day.
\<close>

definition hour_of :: "int \<Rightarrow> int" where
  "hour_of today = (today div 3600000000) mod 24"

definition day_start :: "int \<Rightarrow> int" where
  "day_start today = (today div 86400000000) * 86400"

definition timegm :: "int \<Rightarrow> int \<Rightarrow> int \<Rightarrow> int \<Rightarrow> error + int" where
  "timegm today hour minute second =
     (if 0 \<le> hour \<and> hour \<le> 23 \<and> 0 \<le> minute \<and> minute \<le> 59 \<and> 0 \<le> second \<and> second \<le> 59
      then Inr (day_start today + hour * 3600 + minute * 60 + second)
      else Inl ValueError)"

fun get_posting_times_loop ::
  "(nat \<Rightarrow> nat) \<Rightarrow> int \<Rightarrow> int list \<Rightarrow> int list \<Rightarrow> nat \<Rightarrow> (error + int list) \<times> nat" where
  "get_posting_times_loop r today [] timestamps k = (Inr timestamps, k)"
| "get_posting_times_loop r today (hour # posting_hrs) timestamps k =
     (if hour_of today > hour then get_posting_times_loop r today posting_hrs timestamps k
      else
        (let hour' = (if hour_of today = hour then hour + 1 else hour);
             minute = randint r k 1 59;
             second = randint r (k + 1) 1 59
         in (case timegm today hour' minute second of
               Inl err \<Rightarrow> (Inl err, k + 2)
             | Inr t \<Rightarrow> get_posting_times_loop r today posting_hrs (timestamps @ [t]) (k + 2))))"

definition get_posting_times :: "env \<Rightarrow> world \<Rightarrow> (error + int list) \<times> world" where
  "get_posting_times e w =
     (case get_posting_times_loop (rnd e) (slots_now e) (posting_hours (conf e)) [] (rng w) of
        (res, k) \<Rightarrow> (res, w\<lparr>rng := k\<rparr>))"

section \<open>main\<close>

text \<open>
  The loop that schedules the posts: slot \<open>index\<close> goes with \<^verbatim>\<open>to_schedule[index]\<close>.
  A successful reply appends the URL to the history in memory; a failed one is
  reported, which reads its \<^verbatim>\<open>message\<close>.
\<close>

fun schedule_posts ::
  "env \<Rightarrow> article list \<Rightarrow> nat \<Rightarrow> int list \<Rightarrow> string list \<Rightarrow> world \<Rightarrow> (error + string list) \<times> world" where
  "schedule_posts e to_schedule index [] posted w = (Inr posted, w)"
| "schedule_posts e to_schedule index (i # posting_times) posted w =
     (case item_at to_schedule index of
        Inl err \<Rightarrow> (Inl err, w)
      | Inr a \<Rightarrow>
          (case schedule_buffer e (title a @ '' '' @ url a) (PStr ''twitter'') (SInt i) w of
             (Inl err, w') \<Rightarrow> (Inl err, w')
           | (Inr tweet, w') \<Rightarrow>
               if success tweet
               then schedule_posts e to_schedule (index + 1) posting_times (posted @ [url a]) w'
               else (case message tweet of
                       None \<Rightarrow> (Inl KeyError, w')
                     | Some m \<Rightarrow> schedule_posts e to_schedule (index + 1) posting_times posted w')))"

text \<open>The history file: one URL per line on writing, stripped lines on reading.\<close>

definition write_posted :: "string list \<Rightarrow> string" where
  "write_posted posted = concat (map (\<lambda>i. i @ [CHR 0x0A]) posted)"

definition load_posted :: "string \<Rightarrow> string list" where
  "load_posted content = map strip (readlines content)"

text \<open>
  The part of \<^verbatim>\<open>main\<close> from the fetches to the shuffle. It yields the loaded
  history, the time slots and the shuffled candidates.
\<close>

definition select_articles ::
  "env \<Rightarrow> int \<Rightarrow> int \<Rightarrow> world \<Rightarrow> (error + string list \<times> int list \<times> article list) \<times> world" where
  "select_articles e feedly_count clicky_count w =
     (case get_feed e 1 w of
        (Inl err, w1) \<Rightarrow> (Inl err, w1)
      | (Inr feedly, w1) \<Rightarrow>
          (case get_clicky e w1 of
             (Inl err, w2) \<Rightarrow> (Inl err, w2)
           | (Inr clicky, w2) \<Rightarrow>
               (case posted_txt w2 of
                  None \<Rightarrow> (Inl FileNotFoundError, w2)
                | Some content \<Rightarrow>
                    (let posted = load_posted content;
                         feedly_urls = check_posted feedly feedly_count posted;
                         clicky_urls = check_posted clicky clicky_count posted
                     in (case get_posting_times e w2 of
                           (Inl err, w3) \<Rightarrow> (Inl err, w3)
                         | (Inr posting_times, w3) \<Rightarrow>
                             (case shuffle (rnd e) (feedly_urls @ clicky_urls) (rng w3) of
                                (to_schedule, k) \<Rightarrow>
                                  (Inr (posted, posting_times, to_schedule), w3\<lparr>rng := k\<rparr>)))))))"

text \<open>
  The part of \<^verbatim>\<open>main\<close> after the check of the run marker, up to the end of the
  scheduling loop: the configuration is read and checked, the candidates are selected
  and scheduled. Its result is the history in memory (\<^verbatim>\<open>posted\<close>) after the loop.
  \<^verbatim>\<open>sum(articles.values())\<close> adds up every value of the mapping.
\<close>

definition schedule_cycle :: "env \<Rightarrow> world \<Rightarrow> (error + string list) \<times> world" where
  "schedule_cycle e w =
     (case map_of (articles (conf e)) ''feedly'' of
        None \<Rightarrow> (Inl KeyError, w)
      | Some feedly_count \<Rightarrow>
          (case map_of (articles (conf e)) ''clicky'' of
             None \<Rightarrow> (Inl KeyError, w)
           | Some clicky_count \<Rightarrow>
               if int (length (posting_hours (conf e))) \<noteq> sum_list (map snd (articles (conf e)))
               then (Inl AssertionError, w)
               else
                 (case select_articles e feedly_count clicky_count w of
                    (Inl err, w1) \<Rightarrow> (Inl err, w1)
                  | (Inr (posted, posting_times, to_schedule), w1) \<Rightarrow>
                      schedule_posts e to_schedule 0 posting_times posted w1)))"

text \<open>
  The end of \<^verbatim>\<open>main\<close>: after the loop the history file is rewritten from the
  history in memory and the run marker is set to today's date.
\<close>

definition run_cycle :: "env \<Rightarrow> string \<Rightarrow> world \<Rightarrow> (error + unit) \<times> world" where
  "run_cycle e today w =
     (case schedule_cycle e w of
        (Inl err, w2) \<Rightarrow> (Inl err, w2)
      | (Inr posted', w2) \<Rightarrow>
          (Inr (), w2\<lparr>posted_txt := Some (write_posted posted'),
                      done_today_txt := Some today\<rparr>))"

text \<open>
  \<^verbatim>\<open>main\<close>. With one argument the script lists the profiles or rejects the
  argument. Otherwise it compares the run marker with the date part of the formatted
  time and leaves with exit code 0 when they are equal. Returning normally is
  \<open>Inr ()\<close>.
\<close>

definition main :: "env \<Rightarrow> world \<Rightarrow> (error + unit) \<times> world" where
  "main e w =
     (if length (argv e) = 2 then
        (if argv e ! 1 = ''streams''
         then (Inl (SystemExit 0), make_request ProfilesGet w)
         else (Inl (SystemExit 1), w))
      else
        (case done_today_txt w of
           None \<Rightarrow> (Inl FileNotFoundError, w)
         | Some content \<Rightarrow>
             (case item_at (split_on CHR '' '' (utc_today e)) 0 of
                Inl err \<Rightarrow> (Inl err, w)
              | Inr today \<Rightarrow>
                  if strip (universal_newlines content) = today then (Inl (SystemExit 0), w)
                  else run_cycle e today w)))"

section \<open>A sample run\<close>

text \<open>
  A concrete configuration, environment and world, on which the theorems below are
  evaluated: two posting hours, one article from each source, the clock at 08:00 on
  2 January 2024, and state files left by a run on the day before.
\<close>

definition sample_conf :: config where
  "sample_conf =
     \<lparr>posting_hours = [9, 14],
      articles = [(''feedly'', 1), (''clicky'', 1)],
      buffer_profiles = [(''twitter'', ''5f1'')]\<rparr>"

definition sample_env :: env where
  "sample_env =
     \<lparr>argv = [''scheduler.py''],
      conf = sample_conf,
      utc_today = ''2024-01-02 08:00:00'',
      feed_now = 1704182400000000,
      slots_now = 1704182400000000,
      feed_items =
        [\<lparr>fi_title = ''T'', fi_originId = ''http://f.org/a'',
          fi_engagement = Some 5, fi_published = Some 1704180000000\<rparr>],
      clicky_response = [[[\<lparr>ci_title = ''C'', ci_url = ''http://x.org/news/a''\<rparr>]]],
      buffer_reply = (\<lambda>n. \<lparr>success = True, message = None\<rparr>),
      rnd = (\<lambda>n. 0)\<rparr>"

definition sample_world :: world where
  "sample_world =
     \<lparr>done_today_txt = Some ''2024-01-01'', posted_txt = Some [], requests = [], rng = 0\<rparr>"

section \<open>The feed window in the words of the specification\<close>

text \<open>
  The specification describes \<^verbatim>\<open>get_feed\<close> by three steps: items without a publish
  timestamp are skipped, the iteration stops at the first item whose age in whole days
  equals the lookback window, and each kept item becomes an article. The three
  notions are defined here on their own, to be compared with the loop.
\<close>

definition dated :: "feed_item \<Rightarrow> bool" where
  "dated i \<longleftrightarrow> fi_published i \<noteq> None \<and> fi_published i \<noteq> Some 0"

definition age_days :: "int \<Rightarrow> feed_item \<Rightarrow> int" where
  "age_days now i = delta_days now (the (fi_published i))"

definition to_article :: "feed_item \<Rightarrow> article" where
  "to_article i =
     Article (fi_title i) (fi_originId i)
       (case fi_engagement i of None \<Rightarrow> 0 | Some e \<Rightarrow> e) (the (fi_published i))"

section \<open>Time slots in the words of the specification\<close>

text \<open>
  The hour component of a timestamp in seconds, and the hour the specification gives
  a configured hour that is not yet past: one more than the configured hour when it
  is the current hour, the configured hour itself otherwise.
\<close>

definition slot_hour :: "int \<Rightarrow> int" where
  "slot_hour t = (t div 3600) mod 24"

definition target_hour :: "int \<Rightarrow> int \<Rightarrow> int" where
  "target_hour h hour = (if h = hour then hour + 1 else hour)"

section \<open>The history file in the words of the specification\<close>

text \<open>
  A URL that survives the way through the history file unchanged: it holds no line
  break, and it neither starts nor ends with white space. A text that is empty or ends
  with a line feed is a sequence of complete lines.
\<close>

definition clean_url :: "string \<Rightarrow> bool" where
  "clean_url u \<longleftrightarrow>
     CHR 0x0A \<notin> set u \<and> CHR 0x0D \<notin> set u
     \<and> (u = [] \<or> (\<not> is_space (hd u) \<and> \<not> is_space (last u)))"

definition ends_line :: "string \<Rightarrow> bool" where
  "ends_line s \<longleftrightarrow> s = [] \<or> last s = CHR 0x0A"

section \<open>The scheduling loop in the words of the specification\<close>

text \<open>
  The URLs that the scheduling loop adds to the history: slot by slot, the URL of the
  candidate at the slot's position when the reply to that slot's request reports
  success. The reply to a request is the environment's reply at the number of
  requests issued before it.
\<close>

fun appended_urls :: "env \<Rightarrow> article list \<Rightarrow> nat \<Rightarrow> nat \<Rightarrow> nat \<Rightarrow> string list" where
  "appended_urls e to_schedule index 0 k = []"
| "appended_urls e to_schedule index (Suc slots) k =
     (if success (buffer_reply e k) then [url (to_schedule ! index)] else [])
     @ appended_urls e to_schedule (Suc index) slots (Suc k)"

section \<open>Two runs with a feed entry that ends with a space\<close>

text \<open>
  The sample run with the feed entry's \<^verbatim>\<open>originId\<close> ending with a space and one
  older entry in the history file, and the environment of a run 18 hours later, on
  the next day: the feed still returns the entry, the analytics service a new page.
\<close>

definition spaced_env :: env where
  "spaced_env =
     sample_env\<lparr>feed_items :=
       [\<lparr>fi_title = ''T'', fi_originId = ''http://f.org/a '',
         fi_engagement = Some 5, fi_published = Some 1704180000000\<rparr>]\<rparr>"

definition spaced_world :: world where
  "spaced_world = sample_world\<lparr>posted_txt := Some (''http://old.org/x'' @ [CHR 0x0A])\<rparr>"

definition spaced_env_next :: env where
  "spaced_env_next =
     spaced_env\<lparr>utc_today := ''2024-01-03 02:00:00'',
                feed_now := 1704247200000000,
                slots_now := 1704247200000000,
                clicky_response := [[[\<lparr>ci_title = ''D'', ci_url = ''http://x.org/news/b''\<rparr>]]]\<rparr>"

section \<open>Properties of check_posted\<close>

lemma check_posted_loop_take:
  "added \<le> count \<Longrightarrow>
   check_posted_loop source count posted acc added =
     acc @ take (nat (count - added)) (filter (\<lambda>a. url a \<notin> set posted) source)"
proof (induction source arbitrary: acc added)
  case Nil
  then show ?case by simp
next
  case (Cons i source)
  show ?case
  proof (cases "added = count")
    case True
    then show ?thesis by simp
  next
    case False
    with Cons.prems have lt: "added < count" by simp
    then have step: "nat (count - added) = Suc (nat (count - (added + 1)))" by simp
    show ?thesis
    proof (cases "url i \<in> set posted")
      case True
      with False Cons.IH [of added acc] Cons.prems show ?thesis by simp
    next
      case notin: False
      from lt have "added + 1 \<le> count" by simp
      from Cons.IH [OF this, of "acc @ [i]"] False notin step show ?thesis by simp
    qed
  qed
qed

lemma check_posted_loop_all:
  "count < added \<Longrightarrow>
   check_posted_loop source count posted acc added =
     acc @ filter (\<lambda>a. url a \<notin> set posted) source"
  by (induction source arbitrary: acc added) auto

lemma check_posted_nonneg:
  "0 \<le> count \<Longrightarrow>
   check_posted source count posted =
     take (nat count) (filter (\<lambda>a. url a \<notin> set posted) source)"
  using check_posted_loop_take [of 0 count source posted "[]"] by (simp add: check_posted_def)

lemma check_posted_neg:
  "count < 0 \<Longrightarrow>
   check_posted source count posted = filter (\<lambda>a. url a \<notin> set posted) source"
  using check_posted_loop_all [of count 0 source posted "[]"] by (simp add: check_posted_def)

lemma check_posted_prefix:
  "prefix (check_posted source count posted) (filter (\<lambda>a. url a \<notin> set posted) source)"
proof (cases "0 \<le> count")
  case True
  then show ?thesis by (simp add: check_posted_nonneg take_is_prefix)
next
  case False
  then show ?thesis by (simp add: check_posted_neg)
qed

lemma check_posted_fresh:
  "a \<in> set (check_posted source count posted) \<Longrightarrow> url a \<notin> set posted"
  using check_posted_prefix [of source count posted] set_mono_prefix by fastforce

lemma check_posted_subseq: "subseq (check_posted source count posted) source"
proof -
  have "subseq (check_posted source count posted) (filter (\<lambda>a. url a \<notin> set posted) source)"
    using check_posted_prefix by (rule prefix_imp_subseq)
  moreover have "subseq (filter (\<lambda>a. url a \<notin> set posted) source) source"
    by simp
  ultimately show ?thesis by (rule subseq_order.trans)
qed

text \<open>
  C2. The count is a number of articles, that is \<open>int n\<close> for a natural number \<open>n\<close>.
  For every candidate sequence, every such count and every history, the result of
  \<^verbatim>\<open>check_posted\<close> holds no URL of the history, has at most \<open>n\<close> elements and is a
  subsequence of the input; it is the first \<open>n\<close> candidates whose URL is not in the
  history.
\<close>

theorem check_posted_sound:
  "(\<forall>a \<in> set (check_posted source (int n) posted). url a \<notin> set posted)
   \<and> length (check_posted source (int n) posted) \<le> n
   \<and> subseq (check_posted source (int n) posted) source
   \<and> check_posted source (int n) posted = take n (filter (\<lambda>a. url a \<notin> set posted) source)"
proof (intro conjI ballI)
  fix a assume "a \<in> set (check_posted source (int n) posted)"
  then show "url a \<notin> set posted" by (rule check_posted_fresh)
next
  show "length (check_posted source (int n) posted) \<le> n"
    by (simp add: check_posted_nonneg)
next
  show "subseq (check_posted source (int n) posted) source" by (rule check_posted_subseq)
next
  show "check_posted source (int n) posted = take n (filter (\<lambda>a. url a \<notin> set posted) source)"
    by (simp add: check_posted_nonneg)
qed

theorem check_posted_sound_witness:
  "check_posted
        [CArticle ''a'' ''http://x.org/news/a'', CArticle ''b'' ''http://x.org/news/b'',
         CArticle ''c'' ''http://x.org/news/c''] (int 1) [''http://x.org/news/a'']
      = [CArticle ''b'' ''http://x.org/news/b'']
   \<and> url (CArticle ''b'' ''http://x.org/news/b'') \<notin> set [''http://x.org/news/a'']
   \<and> length (check_posted
        [CArticle ''a'' ''http://x.org/news/a'', CArticle ''b'' ''http://x.org/news/b'',
         CArticle ''c'' ''http://x.org/news/c''] (int 1) [''http://x.org/news/a'']) \<le> 1
   \<and> subseq (check_posted
        [CArticle ''a'' ''http://x.org/news/a'', CArticle ''b'' ''http://x.org/news/b'',
         CArticle ''c'' ''http://x.org/news/c''] (int 1) [''http://x.org/news/a''])
        [CArticle ''a'' ''http://x.org/news/a'', CArticle ''b'' ''http://x.org/news/b'',
         CArticle ''c'' ''http://x.org/news/c'']"
  using check_posted_sound
    [of "[CArticle ''a'' ''http://x.org/news/a'', CArticle ''b'' ''http://x.org/news/b'',
          CArticle ''c'' ''http://x.org/news/c'']" 1 "[''http://x.org/news/a'']"]
  by (simp add: check_posted_def)

section \<open>Properties of get_clicky\<close>

lemma get_clicky_loop_raises:
  "\<exists>i \<in> set items. length (split_on CHR ''/'' (ci_url i)) < 4 \<Longrightarrow>
   get_clicky_loop items acc = Inl IndexError"
proof (induction items arbitrary: acc)
  case Nil
  then show ?case by simp
next
  case (Cons i items)
  show ?case
  proof (cases "length (split_on CHR ''/'' (ci_url i)) < 4")
    case True
    then show ?thesis by (simp add: item_at_def)
  next
    case False
    with Cons.prems have "\<exists>i \<in> set items. length (split_on CHR ''/'' (ci_url i)) < 4"
      by auto
    with Cons.IH False show ?thesis by (simp add: item_at_def)
  qed
qed

lemma get_clicky_loop_filter:
  "\<forall>i \<in> set items. 4 \<le> length (split_on CHR ''/'' (ci_url i)) \<Longrightarrow>
   get_clicky_loop items acc =
     Inr (acc @ map (\<lambda>i. CArticle (ci_title i) (ci_url i))
       (filter (\<lambda>i. split_on CHR ''/'' (ci_url i) ! 3 = ''news''
                    \<and> 4 < length (split_on CHR ''/'' (ci_url i))) items))"
  by (induction items arbitrary: acc) (auto simp: item_at_def)

lemma get_clicky_first_bucket:
  "clicky_response e = (items # dates) # sets \<Longrightarrow>
   fst (get_clicky e w) = get_clicky_loop items []"
  by (simp add: get_clicky_def item_at_def)

text \<open>
  C4, as the code has it. When every URL of the first bucket splits into at least four
  segments, \<^verbatim>\<open>get_clicky\<close> returns, in the order of the response, exactly the items
  whose segment at index 3 is \<^verbatim>\<open>news\<close> and whose URL has more than four segments. The
  URL \<^verbatim>\<open>/site/news/my-article\<close> splits into four segments, the empty one before
  the first slash, \<^verbatim>\<open>site\<close>, \<^verbatim>\<open>news\<close> and \<^verbatim>\<open>my-article\<close>, so it is rejected;
  \<^verbatim>\<open>http://x.org/news/a\<close> has five segments with \<^verbatim>\<open>news\<close> at index 3 and is kept;
  \<^verbatim>\<open>/site/other/x\<close> is rejected.
\<close>

theorem get_clicky_filter:
  "(clicky_response e = (items # dates) # sets \<longrightarrow>
    (\<forall>i \<in> set items. 4 \<le> length (split_on CHR ''/'' (ci_url i))) \<longrightarrow>
    fst (get_clicky e w) =
      Inr (map (\<lambda>i. CArticle (ci_title i) (ci_url i))
        (filter (\<lambda>i. split_on CHR ''/'' (ci_url i) ! 3 = ''news''
                     \<and> 4 < length (split_on CHR ''/'' (ci_url i))) items)))
   \<and> fst (get_clicky
        (sample_env\<lparr>clicky_response := [[[\<lparr>ci_title = ''t'', ci_url = ''/site/news/my-article''\<rparr>]]]\<rparr>)
        sample_world) = Inr []
   \<and> fst (get_clicky
        (sample_env\<lparr>clicky_response := [[[\<lparr>ci_title = ''t'', ci_url = ''http://x.org/news/a''\<rparr>]]]\<rparr>)
        sample_world) = Inr [CArticle ''t'' ''http://x.org/news/a'']
   \<and> fst (get_clicky
        (sample_env\<lparr>clicky_response := [[[\<lparr>ci_title = ''t'', ci_url = ''/site/other/x''\<rparr>]]]\<rparr>)
        sample_world) = Inr []"
proof (intro conjI impI)
  assume "clicky_response e = (items # dates) # sets"
    and "\<forall>i \<in> set items. 4 \<le> length (split_on CHR ''/'' (ci_url i))"
  then show "fst (get_clicky e w) =
      Inr (map (\<lambda>i. CArticle (ci_title i) (ci_url i))
        (filter (\<lambda>i. split_on CHR ''/'' (ci_url i) ! 3 = ''news''
                     \<and> 4 < length (split_on CHR ''/'' (ci_url i))) items))"
    by (simp add: get_clicky_first_bucket get_clicky_loop_filter)
qed (simp_all add: get_clicky_def item_at_def)

theorem get_clicky_filter_witness:
  "clicky_response
     (sample_env\<lparr>clicky_response :=
        [[[\<lparr>ci_title = ''a'', ci_url = ''http://x.org/news/a''\<rparr>,
           \<lparr>ci_title = ''b'', ci_url = ''/site/other/x''\<rparr>,
           \<lparr>ci_title = ''c'', ci_url = ''http://x.org/news/c''\<rparr>]]]\<rparr>)
     = [[\<lparr>ci_title = ''a'', ci_url = ''http://x.org/news/a''\<rparr>,
         \<lparr>ci_title = ''b'', ci_url = ''/site/other/x''\<rparr>,
         \<lparr>ci_title = ''c'', ci_url = ''http://x.org/news/c''\<rparr>]] # []
   \<and> 4 \<le> length (split_on CHR ''/'' ''http://x.org/news/a'')
   \<and> 4 \<le> length (split_on CHR ''/'' ''/site/other/x'')
   \<and> 4 \<le> length (split_on CHR ''/'' ''http://x.org/news/c'')
   \<and> fst (get_clicky
        (sample_env\<lparr>clicky_response :=
           [[[\<lparr>ci_title = ''a'', ci_url = ''http://x.org/news/a''\<rparr>,
              \<lparr>ci_title = ''b'', ci_url = ''/site/other/x''\<rparr>,
              \<lparr>ci_title = ''c'', ci_url = ''http://x.org/news/c''\<rparr>]]]\<rparr>)
        sample_world)
      = Inr [CArticle ''a'' ''http://x.org/news/a'', CArticle ''c'' ''http://x.org/news/c'']"
  using get_clicky_filter
    [of "sample_env\<lparr>clicky_response :=
           [[[\<lparr>ci_title = ''a'', ci_url = ''http://x.org/news/a''\<rparr>,
              \<lparr>ci_title = ''b'', ci_url = ''/site/other/x''\<rparr>,
              \<lparr>ci_title = ''c'', ci_url = ''http://x.org/news/c''\<rparr>]]]\<rparr>"
        "[\<lparr>ci_title = ''a'', ci_url = ''http://x.org/news/a''\<rparr>,
          \<lparr>ci_title = ''b'', ci_url = ''/site/other/x''\<rparr>,
          \<lparr>ci_title = ''c'', ci_url = ''http://x.org/news/c''\<rparr>]" "[]" "[]" sample_world]
  by simp

text \<open>
  C4 as the specification words it fails on its first example: the item with URL
  \<^verbatim>\<open>/site/news/my-article\<close> is not kept.
\<close>

theorem get_clicky_filter_counterexample:
  "fst (get_clicky
     (sample_env\<lparr>clicky_response := [[[\<lparr>ci_title = ''t'', ci_url = ''/site/news/my-article''\<rparr>]]]\<rparr>)
     sample_world) \<noteq> Inr [CArticle ''t'' ''/site/news/my-article'']"
  by (simp add: get_clicky_def item_at_def)

text \<open>
  C10. An item of the first bucket whose URL splits into fewer than four segments
  makes \<^verbatim>\<open>get_clicky\<close> raise \<^verbatim>\<open>IndexError\<close>: \<^verbatim>\<open>url[3]\<close> is read before the
  length is compared. The URL \<^verbatim>\<open>/site/news\<close> is such an item.
\<close>

theorem get_clicky_index_error:
  "clicky_response e = (items # dates) # sets \<Longrightarrow> i \<in> set items \<Longrightarrow>
   length (split_on CHR ''/'' (ci_url i)) < 4 \<Longrightarrow>
   fst (get_clicky e w) = Inl IndexError"
  using get_clicky_first_bucket [of e items dates sets w]
    get_clicky_loop_raises [of items "[]"] by auto

theorem get_clicky_index_error_witness:
  "length (split_on CHR ''/'' ''/site/news'') < 4
   \<and> fst (get_clicky
        (sample_env\<lparr>clicky_response :=
           [[[\<lparr>ci_title = ''a'', ci_url = ''http://x.org/news/a''\<rparr>,
              \<lparr>ci_title = ''n'', ci_url = ''/site/news''\<rparr>]]]\<rparr>)
        sample_world) = Inl IndexError"
  using get_clicky_index_error
    [of "sample_env\<lparr>clicky_response :=
           [[[\<lparr>ci_title = ''a'', ci_url = ''http://x.org/news/a''\<rparr>,
              \<lparr>ci_title = ''n'', ci_url = ''/site/news''\<rparr>]]]\<rparr>"
        "[\<lparr>ci_title = ''a'', ci_url = ''http://x.org/news/a''\<rparr>,
          \<lparr>ci_title = ''n'', ci_url = ''/site/news''\<rparr>]" "[]" "[]"
        "\<lparr>ci_title = ''n'', ci_url = ''/site/news''\<rparr>" sample_world]
  by simp

section \<open>Properties of get_feed\<close>

lemma get_feed_loop_window:
  "get_feed_loop now time_delta data acc =
     acc @ map to_article (takeWhile (\<lambda>i. age_days now i \<noteq> time_delta) (filter dated data))"
  by (induction data arbitrary: acc)
     (auto simp: dated_def age_days_def to_article_def split: option.splits)

lemma get_feed_result:
  "fst (get_feed e time_delta w) =
     (if feed_items e = [] then Inl (SystemExit 1)
      else Inr (sort_key (\<lambda>f. - engagement f)
             (map to_article
                (takeWhile (\<lambda>i. age_days (feed_now e) i \<noteq> time_delta)
                   (filter dated (feed_items e))))))"
  by (simp add: get_feed_def Let_def get_feed_loop_window)

lemma get_feed_sorted:
  assumes "fst (get_feed e time_delta w) = Inr r"
  shows "sorted_wrt (\<lambda>a b. engagement b \<le> engagement a) r"
proof -
  from assms obtain xs where "r = sort_key (\<lambda>f. - engagement f) xs"
    by (auto simp: get_feed_def Let_def split: if_splits)
  then have "sorted (map (\<lambda>f. - engagement f) r)" by simp
  then show ?thesis by (simp add: sorted_map)
qed

text \<open>
  C5. For a response with items, \<^verbatim>\<open>get_feed\<close> returns the articles of the dated
  items that come before the first dated item whose age in whole days equals the
  lookback window, sorted by engagement with the largest first. In the scenario the
  clock is at 08:00 on 2 January 2024; three items of the same morning have the
  engagements 5, 10 and 2, one item has no timestamp, the fifth item is exactly one
  day and one hour old, and a sixth item of the same morning follows it. With a
  lookback of one day the result is the three articles in the order 10, 5, 2: the
  undated item is skipped, the item aged one day and the item after it are left out.
\<close>

theorem get_feed_window_sorted:
  "fst (get_feed e time_delta w) =
     (if feed_items e = [] then Inl (SystemExit 1)
      else Inr (sort_key (\<lambda>f. - engagement f)
             (map to_article
                (takeWhile (\<lambda>i. age_days (feed_now e) i \<noteq> time_delta)
                   (filter dated (feed_items e))))))
   \<and> (\<forall>r. fst (get_feed e time_delta w) = Inr r \<longrightarrow>
          sorted_wrt (\<lambda>a b. engagement b \<le> engagement a) r)
   \<and> fst (get_feed
        (sample_env\<lparr>feed_items :=
           [\<lparr>fi_title = ''a'', fi_originId = ''http://f.org/a'',
             fi_engagement = Some 5, fi_published = Some 1704180000000\<rparr>,
            \<lparr>fi_title = ''n'', fi_originId = ''http://f.org/n'',
             fi_engagement = Some 99, fi_published = None\<rparr>,
            \<lparr>fi_title = ''b'', fi_originId = ''http://f.org/b'',
             fi_engagement = Some 10, fi_published = Some 1704170000000\<rparr>,
            \<lparr>fi_title = ''c'', fi_originId = ''http://f.org/c'',
             fi_engagement = Some 2, fi_published = Some 1704160000000\<rparr>,
            \<lparr>fi_title = ''d'', fi_originId = ''http://f.org/d'',
             fi_engagement = Some 50, fi_published = Some 1704092400000\<rparr>,
            \<lparr>fi_title = ''e'', fi_originId = ''http://f.org/e'',
             fi_engagement = Some 70, fi_published = Some 1704150000000\<rparr>]\<rparr>)
        1 sample_world)
      = Inr [Article ''b'' ''http://f.org/b'' 10 1704170000000,
             Article ''a'' ''http://f.org/a'' 5 1704180000000,
             Article ''c'' ''http://f.org/c'' 2 1704160000000]"
proof (intro conjI allI impI)
  show "fst (get_feed e time_delta w) =
     (if feed_items e = [] then Inl (SystemExit 1)
      else Inr (sort_key (\<lambda>f. - engagement f)
             (map to_article
                (takeWhile (\<lambda>i. age_days (feed_now e) i \<noteq> time_delta)
                   (filter dated (feed_items e))))))"
    by (rule get_feed_result)
next
  fix r assume "fst (get_feed e time_delta w) = Inr r"
  then show "sorted_wrt (\<lambda>a b. engagement b \<le> engagement a) r"
    by (rule get_feed_sorted)
qed (simp add: get_feed_def sample_env_def delta_days_def)

theorem get_feed_window_sorted_witness:
  "fst (get_feed
        (sample_env\<lparr>feed_items :=
           [\<lparr>fi_title = ''a'', fi_originId = ''http://f.org/a'',
             fi_engagement = Some 5, fi_published = Some 1704180000000\<rparr>,
            \<lparr>fi_title = ''b'', fi_originId = ''http://f.org/b'',
             fi_engagement = None, fi_published = Some 1704170000000\<rparr>,
            \<lparr>fi_title = ''c'', fi_originId = ''http://f.org/c'',
             fi_engagement = Some 7, fi_published = Some 1704160000000\<rparr>]\<rparr>)
        1 sample_world)
      = Inr [Article ''c'' ''http://f.org/c'' 7 1704160000000,
             Article ''a'' ''http://f.org/a'' 5 1704180000000,
             Article ''b'' ''http://f.org/b'' 0 1704170000000]
   \<and> sorted_wrt (\<lambda>a b. engagement b \<le> engagement a)
        [Article ''c'' ''http://f.org/c'' 7 1704160000000,
         Article ''a'' ''http://f.org/a'' 5 1704180000000,
         Article ''b'' ''http://f.org/b'' 0 1704170000000]"
  using get_feed_window_sorted
    [of "sample_env\<lparr>feed_items :=
           [\<lparr>fi_title = ''a'', fi_originId = ''http://f.org/a'',
             fi_engagement = Some 5, fi_published = Some 1704180000000\<rparr>,
            \<lparr>fi_title = ''b'', fi_originId = ''http://f.org/b'',
             fi_engagement = None, fi_published = Some 1704170000000\<rparr>,
            \<lparr>fi_title = ''c'', fi_originId = ''http://f.org/c'',
             fi_engagement = Some 7, fi_published = Some 1704160000000\<rparr>]\<rparr>" 1 sample_world]
  by (simp add: sample_env_def dated_def age_days_def to_article_def delta_days_def)

section \<open>Properties of get_posting_times\<close>

lemma hour_of_range: "0 \<le> hour_of today \<and> hour_of today < 24"
  by (simp add: hour_of_def)

lemma today_decomp:
  "today = day_start today * 1000000 + hour_of today * 3600000000 + today mod 3600000000"
proof -
  have "today mod (3600000000 * 24) = 3600000000 * (today div 3600000000 mod 24) + today mod 3600000000"
    by (rule zmod_zmult2_eq) simp
  moreover have "today = (today div 86400000000) * 86400000000 + today mod 86400000000"
    by simp
  ultimately show ?thesis by (simp add: day_start_def hour_of_def)
qed

lemma today_before_next_hour:
  "today < day_start today * 1000000 + (hour_of today + 1) * 3600000000"
proof -
  have "today mod 3600000000 < 3600000000" by simp
  with today_decomp [of today] show ?thesis by (simp add: algebra_simps)
qed

lemma randint_range: "lo \<le> hi \<Longrightarrow> lo \<le> randint r k lo hi \<and> randint r k lo hi \<le> hi"
proof -
  assume "lo \<le> hi"
  then have pos: "0 < nat (hi - lo + 1)" by simp
  have "r k mod nat (hi - lo + 1) < nat (hi - lo + 1)" using pos by (rule mod_less_divisor)
  then have "int (r k mod nat (hi - lo + 1)) < hi - lo + 1" by linarith
  then show ?thesis by (simp add: randint_def)
qed

lemma timegm_slot:
  assumes "timegm today hour' minute second = Inr t"
    and "hour_of today < hour'" and "1 \<le> minute" and "1 \<le> second"
  shows "slot_hour t = hour' \<and> today < t * 1000000"
proof -
  from assms(1) have rng: "0 \<le> hour'" "hour' \<le> 23" "minute \<le> 59" "second \<le> 59"
    and t: "t = day_start today + hour' * 3600 + minute * 60 + second"
    by (auto simp: timegm_def split: if_splits)
  define d where "d = today div 86400000000"
  define s where "s = minute * 60 + second"
  have s: "0 \<le> s" "s < 3600" using assms(3,4) rng by (auto simp: s_def)
  have t': "t = (d * 24 + hour') * 3600 + s" by (simp add: t day_start_def d_def s_def)
  have "t div 3600 = d * 24 + hour'" using s unfolding t' by simp
  then have "slot_hour t = hour'" using rng by (simp add: slot_hour_def)
  moreover have "today < t * 1000000"
    using today_before_next_hour [of today] assms(2,3,4) unfolding t by simp
  ultimately show ?thesis by simp
qed

lemma get_posting_times_loop_slots:
  "get_posting_times_loop r today hrs ts k = (Inr ts', k') \<Longrightarrow>
   \<exists>new. ts' = ts @ new
     \<and> list_all2 (\<lambda>hour t. slot_hour t = target_hour (hour_of today) hour \<and> today < t * 1000000)
          (filter (\<lambda>hour. hour_of today \<le> hour) hrs) new"
proof (induction hrs arbitrary: ts k)
  case Nil
  then show ?case by simp
next
  case (Cons hour hrs)
  show ?case
  proof (cases "hour_of today > hour")
    case True
    with Cons.prems have "get_posting_times_loop r today hrs ts k = (Inr ts', k')" by simp
    from Cons.IH [OF this] True show ?thesis by simp
  next
    case False
    define hour' where "hour' = target_hour (hour_of today) hour"
    define minute where "minute = randint r k 1 59"
    define second where "second = randint r (k + 1) 1 59"
    from False Cons.prems obtain t where
      tg: "timegm today hour' minute second = Inr t"
      and rest: "get_posting_times_loop r today hrs (ts @ [t]) (k + 2) = (Inr ts', k')"
      by (auto simp: Let_def hour'_def minute_def second_def target_hour_def
          split: sum.splits if_splits)
    have lt: "hour_of today < hour'" using False by (simp add: hour'_def target_hour_def)
    have m: "1 \<le> minute" "1 \<le> second"
      using randint_range [of 1 59 r k] randint_range [of 1 59 r "k + 1"]
      by (simp_all add: minute_def second_def)
    from timegm_slot [OF tg lt m] have ok: "slot_hour t = hour'" "today < t * 1000000" by simp_all
    from Cons.IH [OF rest] obtain new where
      new: "ts' = (ts @ [t]) @ new"
      "list_all2 (\<lambda>hour t. slot_hour t = target_hour (hour_of today) hour \<and> today < t * 1000000)
          (filter (\<lambda>hour. hour_of today \<le> hour) hrs) new" by blast
    have "ts' = ts @ (t # new)" using new(1) by simp
    moreover have "list_all2 (\<lambda>hour t. slot_hour t = target_hour (hour_of today) hour \<and> today < t * 1000000)
          (filter (\<lambda>hour. hour_of today \<le> hour) (hour # hrs)) (t # new)"
      using False ok new(2) by (simp add: hour'_def)
    ultimately show ?thesis by blast
  qed
qed

lemma get_posting_times_loop_returns:
  "(\<forall>hour \<in> set hrs. hour_of today \<le> hour \<longrightarrow> target_hour (hour_of today) hour \<le> 23) \<Longrightarrow>
   \<exists>ts' k'. get_posting_times_loop r today hrs ts k = (Inr ts', k')"
proof (induction hrs arbitrary: ts k)
  case Nil
  then show ?case by simp
next
  case (Cons hour hrs)
  have h0: "0 \<le> hour_of today" using hour_of_range by simp
  have m: "1 \<le> randint r k 1 59 \<and> randint r k 1 59 \<le> 59"
     "1 \<le> randint r (k + 1) 1 59 \<and> randint r (k + 1) 1 59 \<le> 59"
    using randint_range [of 1 59 r k] randint_range [of 1 59 r "k + 1"] by simp_all
  from Cons.prems have rest: "\<forall>hour \<in> set hrs. hour_of today \<le> hour \<longrightarrow> target_hour (hour_of today) hour \<le> 23"
    by simp
  show ?case
  proof (cases "hour_of today > hour")
    case True
    then show ?thesis using Cons.IH [OF rest] by simp
  next
    case False
    with Cons.prems have "target_hour (hour_of today) hour \<le> 23" by simp
    with False h0 m show ?thesis using Cons.IH [OF rest]
      by (simp add: Let_def timegm_def target_hour_def)
  qed
qed

lemma list_all2_rightD:
  "list_all2 P xs ys \<Longrightarrow> y \<in> set ys \<Longrightarrow> \<exists>x \<in> set xs. P x y"
  by (induction rule: list_all2_induct) auto

text \<open>
  C3. When \<^verbatim>\<open>get_posting_times\<close> returns, its timestamps go one by one with the
  configured hours that are not before the current hour \<open>H\<close>, in their order; the hour
  component of each is the configured hour, or that hour plus one when the configured
  hour is \<open>H\<close>; and each lies after the time at which the generator read the clock.
  (The function raises \<^verbatim>\<open>ValueError\<close> instead of returning when such an hour is above
  23, as \<open>get_posting_times_loop_returns\<close> shows.)
\<close>

theorem get_posting_times_slots:
  "fst (get_posting_times e w) = Inr ts \<Longrightarrow>
   list_all2
     (\<lambda>hour t. slot_hour t = target_hour (hour_of (slots_now e)) hour
                \<and> slots_now e < t * 1000000)
     (filter (\<lambda>hour. hour_of (slots_now e) \<le> hour) (posting_hours (conf e))) ts
   \<and> (\<forall>t \<in> set ts.
        (\<exists>hour \<in> set (posting_hours (conf e)). slot_hour t = hour \<or> slot_hour t = hour + 1)
        \<and> slots_now e < t * 1000000)"
proof -
  assume ret: "fst (get_posting_times e w) = Inr ts"
  let ?P = "\<lambda>hour t. slot_hour t = target_hour (hour_of (slots_now e)) hour
                \<and> slots_now e < t * 1000000"
  let ?kept = "filter (\<lambda>hour. hour_of (slots_now e) \<le> hour) (posting_hours (conf e))"
  from ret obtain k where
    "get_posting_times_loop (rnd e) (slots_now e) (posting_hours (conf e)) [] (rng w) = (Inr ts, k)"
    by (auto simp: get_posting_times_def split: prod.splits)
  from get_posting_times_loop_slots [OF this] have all2: "list_all2 ?P ?kept ts" by simp
  have "\<forall>t \<in> set ts.
        (\<exists>hour \<in> set (posting_hours (conf e)). slot_hour t = hour \<or> slot_hour t = hour + 1)
        \<and> slots_now e < t * 1000000"
  proof
    fix t assume "t \<in> set ts"
    with all2 obtain hour where "hour \<in> set ?kept" and "?P hour t"
      using list_all2_rightD [of ?P ?kept ts t] by blast
    then show "(\<exists>hour \<in> set (posting_hours (conf e)). slot_hour t = hour \<or> slot_hour t = hour + 1)
        \<and> slots_now e < t * 1000000"
      by (auto simp: target_hour_def split: if_splits)
  qed
  with all2 show ?thesis by simp
qed

theorem get_posting_times_slots_witness:
  "fst (get_posting_times
      (sample_env\<lparr>conf := sample_conf\<lparr>posting_hours := [9, 14, 20]\<rparr>,
                  slots_now := 1704204300000000\<rparr>)
      sample_world) = Inr [1704207661, 1704225661]
   \<and> hour_of 1704204300000000 = 14
   \<and> slot_hour 1704207661 = 15 \<and> slot_hour 1704225661 = 20
   \<and> (1704204300000000 :: int) < 1704207661 * 1000000
   \<and> (1704204300000000 :: int) < 1704225661 * 1000000"
  using get_posting_times_slots
    [of "sample_env\<lparr>conf := sample_conf\<lparr>posting_hours := [9, 14, 20]\<rparr>,
                    slots_now := 1704204300000000\<rparr>" sample_world "[1704207661, 1704225661]"]
  by (simp add: get_posting_times_def sample_env_def sample_world_def hour_of_def timegm_def
      day_start_def randint_def slot_hour_def)

section \<open>Properties of schedule_buffer\<close>

declare str_nat.simps [simp del]

lemma str_nat_length_pos: "0 < length (str_nat n)"
  by (subst str_nat.simps) simp

lemma str_nat_length_le: "0 < k \<Longrightarrow> length (str_nat n) \<le> k \<longleftrightarrow> n < 10 ^ k"
proof (induction n arbitrary: k rule: str_nat.induct)
  case (1 n)
  show ?case
  proof (cases "n < 10")
    case True
    have "(10::nat) ^ 1 \<le> 10 ^ k" using "1.prems" by (intro power_increasing) simp_all
    with True have "n < 10 ^ k" by simp
    moreover have "length (str_nat n) = 1" using True by (subst str_nat.simps) simp
    ultimately show ?thesis using "1.prems" by simp
  next
    case False
    then have len: "length (str_nat n) = Suc (length (str_nat (n div 10)))"
      by (subst str_nat.simps) simp
    show ?thesis
    proof (cases k)
      case 0
      with "1.prems" show ?thesis by simp
    next
      case (Suc j)
      show ?thesis
      proof (cases "j = 0")
        case True
        with Suc False len str_nat_length_pos [of "n div 10"] show ?thesis by simp
      next
        case jpos: False
        then have "length (str_nat (n div 10)) \<le> j \<longleftrightarrow> n div 10 < 10 ^ j"
          using "1.IH" [OF False, of j] by simp
        moreover have "n div 10 < 10 ^ j \<longleftrightarrow> n < 10 ^ j * 10"
          by (simp add: div_less_iff_less_mult)
        ultimately show ?thesis using Suc len by (simp add: mult.commute)
      qed
    qed
  qed
qed

lemma str_nat_length_10: "length (str_nat n) = 10 \<longleftrightarrow> 1000000000 \<le> n \<and> n < 10000000000"
proof -
  have "length (str_nat n) \<le> 10 \<longleftrightarrow> n < 10 ^ 10" by (rule str_nat_length_le) simp
  moreover have "length (str_nat n) \<le> 9 \<longleftrightarrow> n < 10 ^ 9" by (rule str_nat_length_le) simp
  ultimately show ?thesis by auto
qed

lemma str_nat_length_9: "length (str_nat n) = 9 \<longleftrightarrow> 100000000 \<le> n \<and> n < 1000000000"
proof -
  have "length (str_nat n) \<le> 9 \<longleftrightarrow> n < 10 ^ 9" by (rule str_nat_length_le) simp
  moreover have "length (str_nat n) \<le> 8 \<longleftrightarrow> n < 10 ^ 8" by (rule str_nat_length_le) simp
  ultimately show ?thesis by auto
qed

lemma str_int_length_10:
  "length (str_int n) = 10 \<longleftrightarrow>
     (1000000000 \<le> n \<and> n < 10000000000) \<or> (- 1000000000 < n \<and> n \<le> - 100000000)"
proof (cases "n < 0")
  case True
  then have "length (str_int n) = 10 \<longleftrightarrow> length (str_nat (nat (- n))) = 9"
    by (simp add: str_int_def)
  with True show ?thesis by (auto simp: str_nat_length_9)
next
  case False
  then show ?thesis by (auto simp: str_int_def str_nat_length_10)
qed

lemma schedule_buffer_error_no_request:
  "fst (schedule_buffer e status_text profile scheduled w) = Inl err \<Longrightarrow>
   snd (schedule_buffer e status_text profile scheduled w) = w"
  by (auto simp: schedule_buffer_def split: sum.splits)

lemma schedule_buffer_success_one_request:
  "fst (schedule_buffer e status_text profile scheduled w) = Inr reply \<Longrightarrow>
   \<exists>pid p. requests (snd (schedule_buffer e status_text profile scheduled w))
             = requests w @ [UpdatePost pid status_text p]"
  by (auto simp: schedule_buffer_def make_request_def split: sum.splits)






section \<open>Properties of main\<close>

lemma split_on_nonempty: "split_on c s \<noteq> []"
  by (induction s) (auto split: list.splits)

lemma schedule_cycle_mismatch:
  "int (length (posting_hours (conf e))) \<noteq> sum_list (map snd (articles (conf e))) \<Longrightarrow>
   snd (schedule_cycle e w) = w \<and> fst (schedule_cycle e w) \<in> {Inl KeyError, Inl AssertionError}"
  by (simp add: schedule_cycle_def split: option.splits)

lemma run_cycle_mismatch:
  "int (length (posting_hours (conf e))) \<noteq> sum_list (map snd (articles (conf e))) \<Longrightarrow>
   snd (run_cycle e today w) = w \<and> fst (run_cycle e today w) \<in> {Inl KeyError, Inl AssertionError}"
  using schedule_cycle_mismatch [of e w]
  by (cases "schedule_cycle e w") (auto simp: run_cycle_def)

lemma main_noop:
  "length (argv e) \<noteq> 2 \<Longrightarrow> done_today_txt w = Some content \<Longrightarrow>
   split_on CHR '' '' (utc_today e) = today # rest \<Longrightarrow>
   strip (universal_newlines content) = today \<Longrightarrow>
   main e w = (Inl (SystemExit 0), w)"
  by (simp add: main_def item_at_def)

lemma main_mismatch:
  assumes "length (argv e) \<noteq> 2"
    and "int (length (posting_hours (conf e))) \<noteq> sum_list (map snd (articles (conf e)))"
  shows "snd (main e w) = w
    \<and> fst (main e w) \<in> {Inl FileNotFoundError, Inl (SystemExit 0), Inl KeyError, Inl AssertionError}"
proof (cases "done_today_txt w")
  case None
  with assms(1) show ?thesis by (simp add: main_def)
next
  case (Some content)
  obtain today rest where sp: "split_on CHR '' '' (utc_today e) = today # rest"
    using split_on_nonempty [of "CHR '' ''" "utc_today e"] by (cases "split_on CHR '' '' (utc_today e)") auto
  show ?thesis
  proof (cases "strip (universal_newlines content) = today")
    case True
    with main_noop [OF assms(1) Some sp] show ?thesis by simp
  next
    case False
    with assms(1) Some sp have "main e w = run_cycle e today w"
      by (simp add: main_def item_at_def)
    with run_cycle_mismatch [OF assms(2), of today w] show ?thesis by auto
  qed
qed

lemma main_mismatch_assert:
  assumes "length (argv e) \<noteq> 2"
    and "int (length (posting_hours (conf e))) \<noteq> sum_list (map snd (articles (conf e)))"
    and "done_today_txt w = Some content"
    and "split_on CHR '' '' (utc_today e) = today # rest"
    and "strip (universal_newlines content) \<noteq> today"
    and "map_of (articles (conf e)) ''feedly'' = Some fc"
    and "map_of (articles (conf e)) ''clicky'' = Some cc"
  shows "main e w = (Inl AssertionError, w)"
  using assms by (simp add: main_def item_at_def run_cycle_def schedule_cycle_def)

lemma main_completed:
  assumes "main e w = (Inr (), w')"
  shows "length (argv e) \<noteq> 2 \<and>
     (\<exists>today rest posted' w2 content.
        split_on CHR '' '' (utc_today e) = today # rest
        \<and> done_today_txt w = Some content
        \<and> strip (universal_newlines content) \<noteq> today
        \<and> schedule_cycle e w = (Inr posted', w2)
        \<and> w' = w2\<lparr>posted_txt := Some (write_posted posted'), done_today_txt := Some today\<rparr>)"
proof -
  from assms have a: "length (argv e) \<noteq> 2" by (auto simp: main_def split: if_splits)
  from assms a obtain content where c: "done_today_txt w = Some content"
    by (auto simp: main_def split: option.splits)
  obtain today rest where sp: "split_on CHR '' '' (utc_today e) = today # rest"
    using split_on_nonempty [of "CHR '' ''" "utc_today e"] by (cases "split_on CHR '' '' (utc_today e)") auto
  from assms a c sp have ne: "strip (universal_newlines content) \<noteq> today"
    by (auto simp: main_def item_at_def split: if_splits)
  with assms a c sp have rc: "run_cycle e today w = (Inr (), w')"
    by (simp add: main_def item_at_def)
  then obtain posted' w2 where "schedule_cycle e w = (Inr posted', w2)"
    and "w' = w2\<lparr>posted_txt := Some (write_posted posted'), done_today_txt := Some today\<rparr>"
    by (cases "schedule_cycle e w") (auto simp: run_cycle_def split: sum.splits)
  with a c sp ne show ?thesis by blast
qed

lemma main_second_run:
  assumes "main e1 w = (Inr (), w1)"
    and "length (argv e2) \<noteq> 2"
    and "split_on CHR '' '' (utc_today e1) = today # rest1"
    and "split_on CHR '' '' (utc_today e2) = today # rest2"
    and "strip (universal_newlines today) = today"
  shows "main e2 w1 = (Inl (SystemExit 0), w1)"
proof -
  from main_completed [OF assms(1)] assms(3) have "done_today_txt w1 = Some today" by auto
  from main_noop [OF assms(2) this assms(4) assms(5)] show ?thesis .
qed

lemmas run_defs =
  sample_env_def sample_conf_def sample_world_def main_def run_cycle_def schedule_cycle_def
  select_articles_def get_feed_def get_clicky_def strip_def is_space_def
  get_posting_times_def item_at_def make_request_def check_posted_def load_posted_def
  readlines_def delta_days_def shuffle_def timegm_def hour_of_def day_start_def randint_def
  schedule_buffer_def str_int_length_10 write_posted_def

lemma sample_run:
  "main sample_env sample_world =
    (Inr (),
     \<lparr>done_today_txt = Some ''2024-01-02'',
      posted_txt = Some (''http://x.org/news/a'' @ [CHR 0x0A] @ ''http://f.org/a'' @ [CHR 0x0A]),
      requests = [FeedGet, ClickyGet,
                  UpdatePost ''5f1'' ''C http://x.org/news/a'' (At (SInt 1704186061)),
                  UpdatePost ''5f1'' ''T http://f.org/a'' (At (SInt 1704204061))],
      rng = 5\<rparr>)"
  by (simp add: run_defs)

text \<open>
  C6, as the code has it. In a run without a command-line argument whose number of
  posting hours differs from the sum of the configured article counts, the world is
  left as it was: no request is issued and no file is written. The run never
  completes: it ends with the assertion error when the run marker is present and is
  not today's date and both counts are configured; before that check it can only end
  for a missing marker file, as the no-op of a run already done today (exit code 0),
  or for a missing count. With the two entries \<^verbatim>\<open>feedly\<close> and \<^verbatim>\<open>clicky\<close> the sum is
  the sum of these two counts.
\<close>

theorem main_mismatch_no_request:
  "length (argv e) \<noteq> 2 \<Longrightarrow>
   int (length (posting_hours (conf e))) \<noteq> sum_list (map snd (articles (conf e))) \<Longrightarrow>
   snd (main e w) = w
   \<and> fst (main e w) \<in>
       {Inl FileNotFoundError, Inl (SystemExit 0), Inl KeyError, Inl AssertionError}
   \<and> (done_today_txt w = Some content \<longrightarrow>
       split_on CHR '' '' (utc_today e) = today # rest \<longrightarrow>
       strip (universal_newlines content) \<noteq> today \<longrightarrow>
       map_of (articles (conf e)) ''feedly'' = Some fc \<longrightarrow>
       map_of (articles (conf e)) ''clicky'' = Some cc \<longrightarrow>
       main e w = (Inl AssertionError, w))
   \<and> (articles (conf e) = [(''feedly'', fc), (''clicky'', cc)] \<longrightarrow>
       sum_list (map snd (articles (conf e))) = fc + cc)"
  using main_mismatch [of e w] main_mismatch_assert [of e w content today rest fc cc]
  by simp

theorem main_mismatch_no_request_witness:
  "length (argv (sample_env\<lparr>conf := sample_conf\<lparr>posting_hours := [9]\<rparr>\<rparr>)) \<noteq> 2
   \<and> int (length (posting_hours (conf (sample_env\<lparr>conf := sample_conf\<lparr>posting_hours := [9]\<rparr>\<rparr>))))
       \<noteq> sum_list (map snd (articles (conf (sample_env\<lparr>conf := sample_conf\<lparr>posting_hours := [9]\<rparr>\<rparr>))))
   \<and> done_today_txt sample_world = Some ''2024-01-01''
   \<and> split_on CHR '' '' ''2024-01-02 08:00:00'' = [''2024-01-02'', ''08:00:00'']
   \<and> strip (universal_newlines ''2024-01-01'') \<noteq> ''2024-01-02''
   \<and> main (sample_env\<lparr>conf := sample_conf\<lparr>posting_hours := [9]\<rparr>\<rparr>) sample_world
       = (Inl AssertionError, sample_world)"
  using main_mismatch_no_request
    [of "sample_env\<lparr>conf := sample_conf\<lparr>posting_hours := [9]\<rparr>\<rparr>" sample_world
        "''2024-01-01''" "''2024-01-02''" "[''08:00:00'']" 1 1]
  by (simp add: sample_env_def sample_conf_def sample_world_def strip_def is_space_def)

text \<open>
  C6 as the specification words it fails when the run marker is today's date: the
  run with the mismatched configuration does not fail, it leaves with exit code 0.
\<close>

theorem main_mismatch_counterexample:
  "int (length (posting_hours (conf (sample_env\<lparr>conf := sample_conf\<lparr>posting_hours := [9]\<rparr>\<rparr>))))
     \<noteq> sum_list (map snd (articles (conf (sample_env\<lparr>conf := sample_conf\<lparr>posting_hours := [9]\<rparr>\<rparr>))))
   \<and> main (sample_env\<lparr>conf := sample_conf\<lparr>posting_hours := [9]\<rparr>\<rparr>)
        (sample_world\<lparr>done_today_txt := Some ''2024-01-02''\<rparr>)
      = (Inl (SystemExit 0), sample_world\<lparr>done_today_txt := Some ''2024-01-02''\<rparr>)"
  by (simp add: main_def sample_env_def sample_conf_def sample_world_def item_at_def
      strip_def is_space_def)

text \<open>
  C7, as the code has it. A run without a command-line argument that finds the run
  marker equal to today's date leaves with exit code 0 and the world as it was: no
  request, no file written. A run that completes sets the marker to its date, so a
  later run on the same date (a date without surrounding white space, as
  \<^verbatim>\<open>strftime\<close> gives it) is that no-op.
\<close>

theorem main_already_ran_today:
  "(length (argv e) \<noteq> 2 \<longrightarrow> done_today_txt w = Some content \<longrightarrow>
    split_on CHR '' '' (utc_today e) = today # rest \<longrightarrow>
    strip (universal_newlines content) = today \<longrightarrow>
    main e w = (Inl (SystemExit 0), w))
   \<and> (main e1 w0 = (Inr (), w1) \<longrightarrow> length (argv e2) \<noteq> 2 \<longrightarrow>
      split_on CHR '' '' (utc_today e1) = date # rest1 \<longrightarrow>
      split_on CHR '' '' (utc_today e2) = date # rest2 \<longrightarrow>
      strip (universal_newlines date) = date \<longrightarrow>
      main e2 w1 = (Inl (SystemExit 0), w1))"
  using main_noop [of e w content today rest] main_second_run [of e1 w0 w1 e2 date rest1 rest2]
  by blast

theorem main_already_ran_today_witness:
  "length (argv sample_env) \<noteq> 2
   \<and> split_on CHR '' '' (utc_today sample_env) = [''2024-01-02'', ''08:00:00'']
   \<and> strip (universal_newlines (''2024-01-02'' @ [CHR 0x0A])) = ''2024-01-02''
   \<and> main sample_env (sample_world\<lparr>done_today_txt := Some (''2024-01-02'' @ [CHR 0x0A])\<rparr>)
       = (Inl (SystemExit 0), sample_world\<lparr>done_today_txt := Some (''2024-01-02'' @ [CHR 0x0A])\<rparr>)
   \<and> fst (main sample_env sample_world) = Inr ()
   \<and> split_on CHR '' '' ''2024-01-02 21:30:00'' = [''2024-01-02'', ''21:30:00'']
   \<and> strip (universal_newlines ''2024-01-02'') = ''2024-01-02''
   \<and> main (sample_env\<lparr>utc_today := ''2024-01-02 21:30:00''\<rparr>) (snd (main sample_env sample_world))
       = (Inl (SystemExit 0), snd (main sample_env sample_world))"
  using main_already_ran_today
    [of sample_env "sample_world\<lparr>done_today_txt := Some (''2024-01-02'' @ [CHR 0x0A])\<rparr>"
        "''2024-01-02'' @ [CHR 0x0A]" "''2024-01-02''" "[''08:00:00'']"
        sample_env sample_world "snd (main sample_env sample_world)"
        "sample_env\<lparr>utc_today := ''2024-01-02 21:30:00''\<rparr>" "''2024-01-02''"
        "[''08:00:00'']" "[''21:30:00'']"]
    sample_run
  by (simp add: sample_env_def sample_world_def strip_def is_space_def)

text \<open>
  C7 as the specification words it fails when the first run does not complete: a feed
  reply without items ends the run with exit code 1 after the request, the marker is
  not written, and a second run on the same date issues the request again.
\<close>

theorem main_twice_counterexample:
  "requests (snd (main (sample_env\<lparr>feed_items := []\<rparr>)
     (snd (main (sample_env\<lparr>feed_items := []\<rparr>) sample_world)))) = [FeedGet, FeedGet]"
  by (simp add: main_def sample_env_def sample_conf_def sample_world_def item_at_def strip_def
      is_space_def run_cycle_def schedule_cycle_def select_articles_def get_feed_def
      make_request_def)

lemma schedule_posts_excess_slots_raise:
  "index \<le> length to_schedule \<Longrightarrow> length to_schedule < index + length posting_times \<Longrightarrow>
   \<exists>err. fst (schedule_posts e to_schedule index posting_times posted w) = Inl err"
proof (induction posting_times arbitrary: index posted w)
  case Nil
  then show ?case by simp
next
  case (Cons i posting_times)
  show ?case
  proof (cases "index < length to_schedule")
    case False
    then show ?thesis by (simp add: item_at_def)
  next
    case True
    with Cons.prems have "index + 1 \<le> length to_schedule"
      "length to_schedule < (index + 1) + length posting_times" by simp_all
    from Cons.IH [OF this] True show ?thesis
      by (auto simp: item_at_def split: prod.splits sum.splits option.splits)
  qed
qed

text \<open>
  C1 against the code. In the sample run with the feed article already in the history
  file, one candidate remains for two time slots. The first slot is scheduled; for the
  second slot \<^verbatim>\<open>to_schedule[index]\<close> raises \<^verbatim>\<open>IndexError\<close>, and the run ends there
  without writing the history or the run marker.
\<close>

theorem main_excess_slot_index_error:
  "main sample_env (sample_world\<lparr>posted_txt := Some (''http://f.org/a'' @ [CHR 0x0A])\<rparr>) =
    (Inl IndexError,
     \<lparr>done_today_txt = Some ''2024-01-01'',
      posted_txt = Some (''http://f.org/a'' @ [CHR 0x0A]),
      requests = [FeedGet, ClickyGet,
                  UpdatePost ''5f1'' ''C http://x.org/news/a'' (At (SInt 1704186061))],
      rng = 4\<rparr>)"
  by (simp add: run_defs)

section \<open>Properties of the history file\<close>

lemma universal_newlines_Nil_iff: "universal_newlines s = [] \<longleftrightarrow> s = []"
  by (induction s rule: universal_newlines.induct) auto

lemma universal_newlines_Cons:
  "c \<noteq> CHR 0x0D \<Longrightarrow> universal_newlines (c # t) = c # universal_newlines t"
  by (cases t) auto

lemma universal_newlines_id: "CHR 0x0D \<notin> set s \<Longrightarrow> universal_newlines s = s"
  by (induction s rule: universal_newlines.induct) auto

lemma universal_newlines_ends_line: "ends_line s \<Longrightarrow> ends_line (universal_newlines s)"
proof (induction s rule: universal_newlines.induct)
  case 1
  then show ?case by (simp add: ends_line_def)
next
  case (2 c)
  then show ?case by (simp add: ends_line_def)
next
  case (3 c d cs)
  from "3.prems" have tl: "ends_line (d # cs)" and tl2: "ends_line cs"
    by (auto simp: ends_line_def split: if_splits)
  show ?case
  proof (cases "c = CHR 0x0D \<and> d = CHR 0x0A")
    case True
    with "3.IH"(1) tl2 show ?thesis
      by (auto simp: ends_line_def universal_newlines_Nil_iff)
  next
    case False
    with "3.IH"(2,3) tl show ?thesis
      by (auto simp: ends_line_def universal_newlines_Nil_iff)
  qed
qed

lemma universal_newlines_append:
  "ends_line s \<Longrightarrow> universal_newlines (s @ t) = universal_newlines s @ universal_newlines t"
proof (induction s rule: universal_newlines.induct)
  case 1
  then show ?case by simp
next
  case (2 c)
  then have "c = CHR 0x0A" by (simp add: ends_line_def)
  then show ?case by (simp add: universal_newlines_Cons)
next
  case (3 c d cs)
  from "3.prems" have tl: "ends_line (d # cs)" and tl2: "ends_line cs"
    by (auto simp: ends_line_def split: if_splits)
  show ?case
  proof (cases "c = CHR 0x0D \<and> d = CHR 0x0A")
    case True
    with "3.IH"(1) tl2 show ?thesis by simp
  next
    case False
    with "3.IH"(2,3) tl show ?thesis by auto
  qed
qed

lemma lines_from_line:
  "CHR 0x0A \<notin> set u \<Longrightarrow> lines_from cur (u @ CHR 0x0A # q) = (cur @ u @ [CHR 0x0A]) # lines_from [] q"
  by (induction u arbitrary: cur) auto

lemma lines_from_append:
  "ends_line p \<Longrightarrow> lines_from [] (p @ q) = lines_from [] p @ lines_from [] q"
proof -
  have gen: "lines_from cur (p' @ CHR 0x0A # q) = lines_from cur (p' @ [CHR 0x0A]) @ lines_from [] q"
    for cur p'
    by (induction p' arbitrary: cur) auto
  assume "ends_line p"
  show ?thesis
  proof (cases "p = []")
    case True
    then show ?thesis by simp
  next
    case False
    with \<open>ends_line p\<close> have "p = butlast p @ [CHR 0x0A]"
      by (metis ends_line_def append_butlast_last_id)
    then obtain p' where "p = p' @ [CHR 0x0A]" ..
    with gen [of "[]" p'] show ?thesis by simp
  qed
qed

lemma write_posted_ends_line: "ends_line (write_posted posted)"
  by (induction posted rule: rev_induct) (auto simp: write_posted_def ends_line_def)

lemma write_posted_append:
  "write_posted (pre @ u # post) = write_posted pre @ (u @ [CHR 0x0A]) @ write_posted post"
  by (simp add: write_posted_def)

lemma readlines_write_posted:
  assumes "u \<in> set posted" and "CHR 0x0A \<notin> set u" and "CHR 0x0D \<notin> set u"
  shows "u @ [CHR 0x0A] \<in> set (readlines (write_posted posted))"
proof -
  from assms(1) obtain pre post where sp: "posted = pre @ u # post"
    by (auto simp: in_set_conv_decomp)
  have e1: "ends_line (write_posted pre)" by (rule write_posted_ends_line)
  have e2: "ends_line (u @ [CHR 0x0A])" by (simp add: ends_line_def)
  have "universal_newlines (write_posted posted) =
      universal_newlines (write_posted pre) @ universal_newlines (u @ [CHR 0x0A])
        @ universal_newlines (write_posted post)"
    unfolding sp write_posted_append
    by (simp only: universal_newlines_append [OF e1] universal_newlines_append [OF e2])
  moreover have "universal_newlines (u @ [CHR 0x0A]) = u @ [CHR 0x0A]"
    using assms(3) by (intro universal_newlines_id) simp
  ultimately have "readlines (write_posted posted) =
      lines_from [] (universal_newlines (write_posted pre))
        @ lines_from [] (u @ CHR 0x0A # universal_newlines (write_posted post))"
    using lines_from_append [OF universal_newlines_ends_line [OF e1]]
    by (simp add: readlines_def)
  then show ?thesis using lines_from_line [OF assms(2), of "[]"] by simp
qed

lemma strip_line: "clean_url u \<Longrightarrow> strip (u @ [CHR 0x0A]) = u"
proof (cases "u = []")
  case True
  then show ?thesis by (simp add: strip_def is_space_def)
next
  case False
  assume "clean_url u"
  with False have h: "\<not> is_space (hd u)" and l: "\<not> is_space (last u)"
    by (auto simp: clean_url_def)
  from False h have "dropWhile is_space (u @ [CHR 0x0A]) = u @ [CHR 0x0A]"
    by (cases u) auto
  moreover have "is_space (CHR 0x0A)" by (simp add: is_space_def)
  moreover from False l have "dropWhile is_space (rev u) = rev u"
    by (cases u rule: rev_cases) auto
  ultimately show ?thesis by (simp add: strip_def)
qed

lemma load_write_posted:
  "u \<in> set posted \<Longrightarrow> clean_url u \<Longrightarrow> u \<in> set (load_posted (write_posted posted))"
proof -
  assume u: "u \<in> set posted" and c: "clean_url u"
  then have "u @ [CHR 0x0A] \<in> set (readlines (write_posted posted))"
    by (intro readlines_write_posted) (auto simp: clean_url_def)
  then have "strip (u @ [CHR 0x0A]) \<in> set (load_posted (write_posted posted))"
    by (simp add: load_posted_def)
  with strip_line [OF c] show ?thesis by simp
qed

lemma shuffle_loop_set:
  "i < length x \<or> i = 0 \<Longrightarrow> set (fst (shuffle_loop r i x k)) = set x"
proof (induction i arbitrary: x k)
  case 0
  then show ?case by simp
next
  case (Suc i)
  then have lt: "Suc i < length x" by simp
  define j where "j = r k mod (Suc i + 1)"
  have "j < Suc i + 1" unfolding j_def by (rule mod_less_divisor) simp
  with lt have jlt: "j < length x" by simp
  define x' where "x' = x[Suc i := x ! j, j := x ! Suc i]"
  have "set x' = set x" unfolding x'_def using lt jlt by simp
  moreover have "i < length x' \<or> i = 0" using lt by (simp add: x'_def)
  then have "set (fst (shuffle_loop r i x' (k + 1))) = set x'" by (rule Suc.IH)
  ultimately show ?case by (simp add: Let_def j_def x'_def)
qed

lemma shuffle_set: "set (fst (shuffle r x k)) = set x"
  unfolding shuffle_def by (rule shuffle_loop_set) (cases x, auto)

lemma select_articles_fresh:
  assumes "select_articles e fc cc w = (Inr (posted, pts, ts), w1)"
  shows "\<exists>c. posted_txt w = Some c \<and> posted = load_posted c \<and> (\<forall>a \<in> set ts. url a \<notin> set posted)"
proof -
  from assms obtain feedly clicky c k k0 where
    c: "posted_txt w = Some c" and p: "posted = load_posted c"
    and ts: "shuffle (rnd e)
        (check_posted feedly fc (load_posted c) @ check_posted clicky cc (load_posted c)) k0
        = (ts, k)"
    by (auto simp: select_articles_def get_feed_def get_clicky_def make_request_def
        get_posting_times_def Let_def
        split: if_splits sum.splits option.splits prod.splits)
  from ts have "ts = fst (shuffle (rnd e)
        (check_posted feedly fc (load_posted c) @ check_posted clicky cc (load_posted c)) k0)"
    by simp
  then have "set ts = set (check_posted feedly fc (load_posted c)) \<union> set (check_posted clicky cc (load_posted c))"
    by (simp add: shuffle_set)
  with c p show ?thesis by (auto dest: check_posted_fresh)
qed

lemma schedule_posts_grows:
  "schedule_posts e to_schedule index posting_times posted w = (Inr posted', w') \<Longrightarrow>
   prefix posted posted'"
proof (induction posting_times arbitrary: index posted w)
  case Nil
  then show ?case by simp
next
  case (Cons i posting_times)
  from Cons.prems obtain posted1 wa where
    rec: "schedule_posts e to_schedule (Suc index) posting_times posted1 wa = (Inr posted', w')"
    and pre: "prefix posted posted1"
    by (auto split: sum.splits prod.splits if_splits option.splits)
  from Cons.IH [OF rec] pre show ?case by (rule prefix_order.trans [rotated])
qed

lemma schedule_posts_first_success:
  assumes "item_at to_schedule index = Inr a"
    and "schedule_buffer e (title a @ '' '' @ url a) (PStr ''twitter'') (SInt i) w = (Inr tweet, wa)"
    and "success tweet"
    and "schedule_posts e to_schedule index (i # posting_times) posted w = (Inr posted', w')"
  shows "url a \<in> set posted'"
proof -
  from assms have
    "schedule_posts e to_schedule (index + 1) posting_times (posted @ [url a]) wa = (Inr posted', w')"
    by simp
  from schedule_posts_grows [OF this] have "set (posted @ [url a]) \<subseteq> set posted'"
    by (rule set_mono_prefix)
  then show ?thesis by simp
qed

lemma schedule_buffer_Inr:
  "schedule_buffer e status_text profile scheduled w = (Inr tweet, w') \<Longrightarrow>
   tweet = buffer_reply e (length (requests w)) \<and> length (requests w') = Suc (length (requests w))
   \<and> posted_txt w' = posted_txt w \<and> done_today_txt w' = done_today_txt w"
  by (auto simp: schedule_buffer_def make_request_def split: sum.splits)

lemma schedule_posts_appended:
  "schedule_posts e to_schedule index posting_times posted w = (Inr posted', w') \<Longrightarrow>
   posted' = posted @ appended_urls e to_schedule index (length posting_times) (length (requests w))"
proof (induction posting_times arbitrary: index posted w)
  case Nil
  then show ?case by simp
next
  case (Cons i posting_times)
  from Cons.prems obtain a tweet wa where
    a: "item_at to_schedule index = Inr a"
    and sb: "schedule_buffer e (title a @ '' '' @ url a) (PStr ''twitter'') (SInt i) w = (Inr tweet, wa)"
    by (auto split: sum.splits prod.splits)
  from a have idx: "index < length to_schedule" "a = to_schedule ! index"
    by (auto simp: item_at_def split: if_splits)
  from schedule_buffer_Inr [OF sb] have tw: "tweet = buffer_reply e (length (requests w))"
    and len: "length (requests wa) = Suc (length (requests w))" by simp_all
  from Cons.prems a sb have rec:
    "schedule_posts e to_schedule (Suc index) posting_times
       (if success tweet then posted @ [url a] else posted) wa = (Inr posted', w')"
    by (auto split: if_splits option.splits)
  from Cons.IH [OF rec] idx tw len show ?case by auto
qed

lemma select_articles_history:
  assumes "select_articles e fc cc w = (Inr (posted, pts, ts), w1)"
  shows "\<exists>c. posted_txt w = Some c \<and> posted = load_posted c
     \<and> requests w1 = requests w @ [FeedGet, ClickyGet]"
  using assms
  by (auto simp: select_articles_def get_feed_def get_clicky_def make_request_def
        get_posting_times_def Let_def
        split: if_splits sum.splits option.splits prod.splits)

lemma schedule_cycle_history:
  assumes "schedule_cycle e w = (Inr posted', w2)"
  shows "\<exists>c fc cc pts ts w1.
     posted_txt w = Some c
     \<and> select_articles e fc cc w = (Inr (load_posted c, pts, ts), w1)
     \<and> length pts \<le> length ts
     \<and> posted' = load_posted c @ appended_urls e ts 0 (length pts) (length (requests w) + 2)"
proof -
  from assms obtain fc cc posted pts ts w1 where
    sel: "select_articles e fc cc w = (Inr (posted, pts, ts), w1)"
    and sp: "schedule_posts e ts 0 pts posted w1 = (Inr posted', w2)"
    by (auto simp: schedule_cycle_def split: option.splits if_splits sum.splits prod.splits)
  from select_articles_history [OF sel] obtain c where
    c: "posted_txt w = Some c" "posted = load_posted c"
    "requests w1 = requests w @ [FeedGet, ClickyGet]" by blast
  have len: "length pts \<le> length ts"
  proof (rule ccontr)
    assume "\<not> length pts \<le> length ts"
    then have "length ts < 0 + length pts" by simp
    from schedule_posts_excess_slots_raise [OF _ this, of e posted w1] sp show False by simp
  qed
  from schedule_posts_appended [OF sp] c
  have "posted' = load_posted c @ appended_urls e ts 0 (length pts) (length (requests w) + 2)"
    by simp
  moreover from sel c have "select_articles e fc cc w = (Inr (load_posted c, pts, ts), w1)"
    by simp
  ultimately show ?thesis using c(1) len by blast
qed

text \<open>
  For URLs that hold no line break and have no white space at either end the history
  round-trips. When a run completes, the history file holds the loaded history
  followed by the URL of every successful post, one URL per line; every such URL of
  it is in the history the next run loads, and no candidate the next run selects has
  that URL.
\<close>

lemma posted_history_clean_round_trip:
  "main e w = (Inr (), w') \<Longrightarrow>
   \<exists>c fc cc pts ts w1 posted'.
     posted_txt w = Some c
     \<and> select_articles e fc cc w = (Inr (load_posted c, pts, ts), w1)
     \<and> length pts \<le> length ts
     \<and> posted' = load_posted c @ appended_urls e ts 0 (length pts) (length (requests w) + 2)
     \<and> posted_txt w' = Some (write_posted posted')
     \<and> (\<forall>u \<in> set posted'. clean_url u \<longrightarrow>
          u \<in> set (load_posted (write_posted posted'))
          \<and> (\<forall>e2 fc2 cc2 posted2 pts2 ts2 wz.
                select_articles e2 fc2 cc2 w' = (Inr (posted2, pts2, ts2), wz) \<longrightarrow>
                u \<in> set posted2 \<and> u \<notin> url ` set ts2))"
proof -
  assume "main e w = (Inr (), w')"
  from main_completed [OF this] obtain today posted' w2 where
    sc: "schedule_cycle e w = (Inr posted', w2)"
    and w': "w' = w2\<lparr>posted_txt := Some (write_posted posted'), done_today_txt := Some today\<rparr>"
    by blast
  from schedule_cycle_history [OF sc] obtain c fc cc pts ts w1 where
    hist: "posted_txt w = Some c"
      "select_articles e fc cc w = (Inr (load_posted c, pts, ts), w1)"
      "length pts \<le> length ts"
      "posted' = load_posted c @ appended_urls e ts 0 (length pts) (length (requests w) + 2)"
    by blast
  have pfile: "posted_txt w' = Some (write_posted posted')" by (simp add: w')
  define kept where "kept = (\<lambda>p. \<forall>u \<in> set p. clean_url u \<longrightarrow>
          u \<in> set (load_posted (write_posted p))
          \<and> (\<forall>e2 fc2 cc2 posted2 pts2 ts2 wz.
                select_articles e2 fc2 cc2 w' = (Inr (posted2, pts2, ts2), wz) \<longrightarrow>
                u \<in> set posted2 \<and> u \<notin> url ` set ts2))"
  have "kept posted'"
    unfolding kept_def
  proof (intro ballI impI conjI allI)
    fix u assume u: "u \<in> set posted'" "clean_url u"
    then show loaded: "u \<in> set (load_posted (write_posted posted'))" by (rule load_write_posted)
    fix e2 fc2 cc2 posted2 pts2 ts2 wz
    assume "select_articles e2 fc2 cc2 w' = (Inr (posted2, pts2, ts2), wz)"
    from select_articles_fresh [OF this] pfile
    have p2: "posted2 = load_posted (write_posted posted')"
      and fresh: "\<forall>a \<in> set ts2. url a \<notin> set posted2" by auto
    from loaded p2 show "u \<in> set posted2" by simp
    with fresh show "u \<notin> url ` set ts2" by auto
  qed
  with hist pfile have "\<exists>c fc cc pts ts w1 posted'.
     posted_txt w = Some c
     \<and> select_articles e fc cc w = (Inr (load_posted c, pts, ts), w1)
     \<and> length pts \<le> length ts
     \<and> posted' = load_posted c @ appended_urls e ts 0 (length pts) (length (requests w) + 2)
     \<and> posted_txt w' = Some (write_posted posted')
     \<and> kept posted'"
    by blast
  then show ?thesis unfolding kept_def .
qed

text \<open>
  C8 against the code. The feed entry \<^verbatim>\<open>http://f.org/a \<close> (with a space at its end)
  is scheduled by the first run, appended to the history and written to the file as
  it is. The run of the next day strips the line on loading, so the history it
  compares with holds \<^verbatim>\<open>http://f.org/a\<close> without the space; the entry is not
  recognised and is scheduled a second time. The older entry and the analytics URL of
  the first run, which have no white space at their ends, are recognised.
\<close>

theorem posted_history_trailing_space:
  "main spaced_env spaced_world =
    (Inr (),
     \<lparr>done_today_txt = Some ''2024-01-02'',
      posted_txt = Some (''http://old.org/x'' @ [CHR 0x0A] @ ''http://x.org/news/a'' @ [CHR 0x0A]
                          @ ''http://f.org/a '' @ [CHR 0x0A]),
      requests = [FeedGet, ClickyGet,
                  UpdatePost ''5f1'' ''C http://x.org/news/a'' (At (SInt 1704186061)),
                  UpdatePost ''5f1'' ''T http://f.org/a '' (At (SInt 1704204061))],
      rng = 5\<rparr>)
   \<and> main spaced_env_next (snd (main spaced_env spaced_world)) =
    (Inr (),
     \<lparr>done_today_txt = Some ''2024-01-03'',
      posted_txt = Some (''http://old.org/x'' @ [CHR 0x0A] @ ''http://x.org/news/a'' @ [CHR 0x0A]
                          @ ''http://f.org/a'' @ [CHR 0x0A] @ ''http://x.org/news/b'' @ [CHR 0x0A]
                          @ ''http://f.org/a '' @ [CHR 0x0A]),
      requests = [FeedGet, ClickyGet,
                  UpdatePost ''5f1'' ''C http://x.org/news/a'' (At (SInt 1704186061)),
                  UpdatePost ''5f1'' ''T http://f.org/a '' (At (SInt 1704204061)),
                  FeedGet, ClickyGet,
                  UpdatePost ''5f1'' ''D http://x.org/news/b'' (At (SInt 1704272461)),
                  UpdatePost ''5f1'' ''T http://f.org/a '' (At (SInt 1704290461))],
      rng = 10\<rparr>)"
proof -
  have first: "main spaced_env spaced_world =
    (Inr (),
     \<lparr>done_today_txt = Some ''2024-01-02'',
      posted_txt = Some (''http://old.org/x'' @ [CHR 0x0A] @ ''http://x.org/news/a'' @ [CHR 0x0A]
                          @ ''http://f.org/a '' @ [CHR 0x0A]),
      requests = [FeedGet, ClickyGet,
                  UpdatePost ''5f1'' ''C http://x.org/news/a'' (At (SInt 1704186061)),
                  UpdatePost ''5f1'' ''T http://f.org/a '' (At (SInt 1704204061))],
      rng = 5\<rparr>)"
    by (simp add: spaced_env_def spaced_world_def run_defs)
  show ?thesis
    by (simp add: first) (simp add: spaced_env_next_def spaced_env_def run_defs)
qed

end
